theory Spec2Isabelle
  imports Complex_Main
begin

section \<open>The scroll controller of script.js\<close>

text \<open>
  The class \<open>CustomScroll\<close> keeps its whole state in instance fields and changes it
  in three pointer listeners and in the per-frame method \<open>animate\<close>. Each of them is a
  function from the controller to the controller here.

  Numbers: a JavaScript number is a double. The controller is modelled over the real
  numbers: its branches, its updates and its constants are those of the source, and
  rounding and overflow are left out. Two places go further.
  \<^item> A division by zero gives \<open>Infinity\<close> or \<open>NaN\<close>. The two divisions of
    \<open>updateThumb\<close> are \<open>js_div\<close>, whose result \<open>None\<close> stands for the non-finite
    value; \<open>estimateVelocity\<close> divides under \<open>totalDt > 0\<close> only, where the division of
    the reals is the one of the source.
  \<^item> The pointer-move listener is also given in double arithmetic, as \<open>pointermove_fl\<close>:
    every subtraction, product and sum is rounded by \<open>fl\<close>. What is said about sums over
    a run of moves is said about this version.

  The browser: \<open>performance.now()\<close> is an input of the event that reads it. Pointer
  capture, the class list of the viewport and the style writes are effects on DOM objects
  that the controller never reads back; they are not part of the controller's state, and
  the capture calls are taken to return normally.
\<close>

subsection \<open>Data\<close>

datatype scroll_state = Drag | Decel | Spring | Idle

record move =
  dy :: real
  dt :: real

text \<open>
  The fields of the class. \<open>min\<close> and \<open>max\<close> of the source are \<open>minBound\<close> and
  \<open>maxBound\<close> here.
\<close>

record CustomScroll =
  vh :: real
  ch :: real
  minBound :: real
  maxBound :: real
  pos :: real
  vel :: real
  springTarget :: real
  state :: scroll_state
  pointerId :: "int option"
  lastY :: real
  lastMoveTime :: real
  moveHistory :: "move list"

text \<open>
  The behaviour constants are instance fields that the constructor assigns once and no
  method assigns again.
\<close>

definition FRICTION :: real where
  "FRICTION = 0.95"

definition SPRING_K :: real where
  "SPRING_K = 0.15"

definition STOP_VEL :: real where
  "STOP_VEL = 5"

definition MAX_VEL :: real where
  "MAX_VEL = 2000"

subsection \<open>estimateVelocity\<close>

text \<open>The \<open>for ... of\<close> loop over the history, with its two running totals.\<close>

fun sumMoves :: "move list \<Rightarrow> real \<Rightarrow> real \<Rightarrow> real \<times> real" where
  "sumMoves [] totalDy totalDt = (totalDy, totalDt)"
| "sumMoves (m # ms) totalDy totalDt = sumMoves ms (totalDy + dy m) (totalDt + dt m)"

text \<open>The division is only evaluated under \<open>totalDt > 0\<close>.\<close>

definition estimateVelocity :: "CustomScroll \<Rightarrow> real" where
  "estimateVelocity s =
     (case sumMoves (moveHistory s) 0 0 of
        (totalDy, totalDt) \<Rightarrow> if totalDt > 0 then (totalDy / totalDt) * 1000 else 0)"

subsection \<open>The pointer listeners of bindEvents\<close>

definition pointerdown :: "CustomScroll \<Rightarrow> int \<Rightarrow> real \<Rightarrow> real \<Rightarrow> CustomScroll" where
  "pointerdown s pid clientY now =
     s\<lparr>pointerId := Some pid, state := Drag, vel := 0, lastY := clientY,
       lastMoveTime := now, moveHistory := []\<rparr>"

definition pointermove :: "CustomScroll \<Rightarrow> real \<Rightarrow> real \<Rightarrow> CustomScroll" where
  "pointermove s clientY now =
     (if state s \<noteq> Drag then s
      else
        let d = clientY - lastY s;
            s1 = s\<lparr>lastY := clientY\<rparr>;
            s2 = (if pos s1 < minBound s1 \<or> pos s1 > maxBound s1
                  then s1\<lparr>pos := pos s1 + d * 0.4\<rparr>
                  else s1\<lparr>pos := pos s1 + d\<rparr>);
            s3 = s2\<lparr>moveHistory := moveHistory s2 @ [\<lparr>dy = d, dt = now - lastMoveTime s2\<rparr>]\<rparr>;
            s4 = (if length (moveHistory s3) > 5
                  then s3\<lparr>moveHistory := tl (moveHistory s3)\<rparr>
                  else s3)
        in s4\<lparr>lastMoveTime := now\<rparr>)"

definition pointerup :: "CustomScroll \<Rightarrow> CustomScroll" where
  "pointerup s =
     (let s1 = (if pointerId s \<noteq> None then s\<lparr>pointerId := None\<rparr> else s);
          velocity = estimateVelocity s1
      in if pos s1 < minBound s1 \<or> pos s1 > maxBound s1
         then s1\<lparr>springTarget := (if pos s1 < minBound s1 then minBound s1 else maxBound s1),
                 state := Spring\<rparr>
         else if \<bar>velocity\<bar> > STOP_VEL
         then s1\<lparr>vel := max (min velocity MAX_VEL) (- MAX_VEL), state := Decel\<rparr>
         else s1\<lparr>state := Idle\<rparr>)"

subsection \<open>animate\<close>

definition animate :: "CustomScroll \<Rightarrow> CustomScroll" where
  "animate s =
     (if state s = Decel then
        let s1 = s\<lparr>pos := pos s + vel s * (1 / 60)\<rparr>;
            s2 = s1\<lparr>vel := vel s1 * FRICTION\<rparr>;
            s3 = (if \<bar>vel s2\<bar> < STOP_VEL then s2\<lparr>state := Idle\<rparr> else s2)
        in if pos s3 < minBound s3 \<or> pos s3 > maxBound s3
           then s3\<lparr>springTarget := (if pos s3 < minBound s3 then minBound s3 else maxBound s3),
                   state := Spring\<rparr>
           else s3
      else if state s = Spring then
        let delta = springTarget s - pos s;
            s1 = s\<lparr>vel := delta * SPRING_K\<rparr>;
            s2 = s1\<lparr>pos := pos s1 + vel s1\<rparr>
        in if \<bar>delta\<bar> < 0.5 then s2\<lparr>pos := springTarget s2, state := Idle\<rparr> else s2
      else s)"

subsection \<open>updateThumb\<close>

definition js_div :: "real \<Rightarrow> real \<Rightarrow> real option" where
  "js_div a b = (if b = 0 then None else Some (a / b))"

text \<open>The locals \<open>thumbHeight\<close> and \<open>scrollRatio\<close> of \<open>updateThumb\<close>.\<close>

definition thumbHeight :: "CustomScroll \<Rightarrow> real option" where
  "thumbHeight s =
     (case js_div (vh s) (ch s) of
        None \<Rightarrow> None
      | Some ratio \<Rightarrow> Some (max (vh s * ratio) 20))"

definition scrollRatio :: "CustomScroll \<Rightarrow> real option" where
  "scrollRatio s = (if maxBound s > 0 then js_div (pos s) (maxBound s) else Some 0)"

text \<open>
  What \<open>updateThumb\<close> writes: the height of the thumb and its \<open>translateY\<close>, each
  \<open>None\<close> when the number written is not finite.
\<close>

definition updateThumb :: "CustomScroll \<Rightarrow> real option \<times> real option" where
  "updateThumb s =
     (case (thumbHeight s, scrollRatio s) of
        (Some h, Some r) \<Rightarrow> (Some h, Some ((vh s - h) * r))
      | (Some h, None) \<Rightarrow> (Some h, None)
      | (None, _) \<Rightarrow> (None, None))"

subsection \<open>The constructor and the events\<close>

text \<open>
  The constructor reads the two heights from the DOM, sets the fields and runs
  \<open>animate\<close> once.
\<close>

definition constructor :: "real \<Rightarrow> real \<Rightarrow> CustomScroll" where
  "constructor viewportHeight contentHeight =
     animate \<lparr>vh = viewportHeight, ch = contentHeight, minBound = 0,
       maxBound = max (contentHeight - viewportHeight) 0, pos = 0, vel = 0,
       springTarget = 0, state = Idle, pointerId = None, lastY = 0, lastMoveTime = 0,
       moveHistory = []\<rparr>"

text \<open>
  What the host can deliver. \<open>bindEvents\<close> registers listeners for \<open>pointerdown\<close>,
  \<open>pointermove\<close> and \<open>pointerup\<close> only; a \<open>pointercancel\<close> finds no listener, so no
  code of the controller runs for it. \<open>Frame\<close> is one call of \<open>animate\<close>.
\<close>

datatype event =
    PointerDown int real real
  | PointerMove real real
  | PointerUp
  | PointerCancel
  | Frame

fun handle :: "CustomScroll \<Rightarrow> event \<Rightarrow> CustomScroll" where
  "handle s (PointerDown pid clientY now) = pointerdown s pid clientY now"
| "handle s (PointerMove clientY now) = pointermove s clientY now"
| "handle s PointerUp = pointerup s"
| "handle s PointerCancel = s"
| "handle s Frame = animate s"

definition run :: "CustomScroll \<Rightarrow> event list \<Rightarrow> CustomScroll" where
  "run s es = foldl handle s es"

inductive reachable :: "CustomScroll \<Rightarrow> bool" where
  constructed: "reachable (constructor viewportHeight contentHeight)"
| handled: "reachable s \<Longrightarrow> reachable (handle s e)"

subsection \<open>Double arithmetic\<close>

text \<open>
  \<open>fl x\<close> is the double nearest to the real \<open>x\<close>: with \<open>2 ^ e \<le> |x| < 2 ^ (e + 1)\<close>,
  the doubles around \<open>x\<close> are the multiples of \<open>2 ^ (e - 52)\<close> (of \<open>2 ^ - 1074\<close> in the
  subnormal range), and \<open>x\<close> goes to the nearest one, a tie to the one with an even
  multiplier. Reals beyond the largest double, which the source would turn into
  \<open>Infinity\<close>, are outside this model.
\<close>

text \<open>The number of binary digits of a natural number.\<close>

fun bitlength :: "nat \<Rightarrow> nat" where
  "bitlength n = (if n = 0 then 0 else Suc (bitlength (n div 2)))"

declare bitlength.simps [simp del]

text \<open>The exponent \<open>e\<close> with \<open>2 ^ e \<le> a < 2 ^ (e + 1)\<close>, for a positive \<open>a\<close>.\<close>

definition exponent :: "real \<Rightarrow> int" where
  "exponent a =
     (if 1 \<le> a then int (bitlength (nat \<lfloor>a\<rfloor>)) - 1
      else - int (bitlength (nat (\<lceil>1 / a\<rceil> - 1))))"

definition pow2 :: "int \<Rightarrow> real" where
  "pow2 e = (if 0 \<le> e then 2 ^ nat e else 1 / 2 ^ nat (- e))"

definition roundTiesToEven :: "real \<Rightarrow> int" where
  "roundTiesToEven r =
     (let f = \<lfloor>r\<rfloor>
      in if r - of_int f < 1 / 2 then f
         else if 1 / 2 < r - of_int f then f + 1
         else if even f then f else f + 1)"

definition fl :: "real \<Rightarrow> real" where
  "fl x =
     (if x = 0 then 0
      else let q = pow2 (max (exponent \<bar>x\<bar>) (- 1022) - 52)
           in of_int (roundTiesToEven (x / q)) * q)"

text \<open>
  The \<open>pointermove\<close> listener again, with the arithmetic of the source: \<open>dy\<close>,
  \<open>dy * 0.4\<close>, the new \<open>pos\<close> and \<open>dt\<close> are each one rounded operation, and the literal
  \<open>0.4\<close> is the double nearest to it.
\<close>

definition pointermove_fl :: "CustomScroll \<Rightarrow> real \<Rightarrow> real \<Rightarrow> CustomScroll" where
  "pointermove_fl s clientY now =
     (if state s \<noteq> Drag then s
      else
        let d = fl (clientY - lastY s);
            s1 = s\<lparr>lastY := clientY\<rparr>;
            s2 = (if pos s1 < minBound s1 \<or> pos s1 > maxBound s1
                  then s1\<lparr>pos := fl (pos s1 + fl (d * fl 0.4))\<rparr>
                  else s1\<lparr>pos := fl (pos s1 + d)\<rparr>);
            s3 = s2\<lparr>moveHistory :=
                      moveHistory s2 @ [\<lparr>dy = d, dt = fl (now - lastMoveTime s2)\<rparr>]\<rparr>;
            s4 = (if length (moveHistory s3) > 5
                  then s3\<lparr>moveHistory := tl (moveHistory s3)\<rparr>
                  else s3)
        in s4\<lparr>lastMoveTime := now\<rparr>)"

subsection \<open>Notions used to state the properties\<close>

text \<open>A run of pointer moves, each given by its \<open>clientY\<close> and its time.\<close>

fun moves_fl :: "CustomScroll \<Rightarrow> (real \<times> real) list \<Rightarrow> CustomScroll" where
  "moves_fl s [] = s"
| "moves_fl s ((clientY, now) # ms) = moves_fl (pointermove_fl s clientY now) ms"

text \<open>Every move of the run starts from a position within the bounds.\<close>

fun movesWithinBounds_fl :: "CustomScroll \<Rightarrow> (real \<times> real) list \<Rightarrow> bool" where
  "movesWithinBounds_fl s [] = True"
| "movesWithinBounds_fl s ((clientY, now) # ms) =
     (minBound s \<le> pos s \<and> pos s \<le> maxBound s
      \<and> movesWithinBounds_fl (pointermove_fl s clientY now) ms)"

text \<open>
  The displacements of a run of pointer coordinates as the listener computes them, and
  their sum as the listener accumulates it onto the position.
\<close>

fun displacements_fl :: "real \<Rightarrow> real list \<Rightarrow> real list" where
  "displacements_fl y0 [] = []"
| "displacements_fl y0 (y # ys) = fl (y - y0) # displacements_fl y ys"

fun sum_fl :: "real \<Rightarrow> real list \<Rightarrow> real" where
  "sum_fl acc [] = acc"
| "sum_fl acc (d # ds) = sum_fl (fl (acc + d)) ds"

text \<open>The exact displacements of a run of pointer coordinates, from a reference.\<close>

fun displacements :: "real \<Rightarrow> real list \<Rightarrow> real list" where
  "displacements y0 [] = []"
| "displacements y0 (y # ys) = (y - y0) # displacements y ys"

text \<open>
  A controller on its way to the spring target: still springing, or snapped onto it.
\<close>

definition settling :: "CustomScroll \<Rightarrow> bool" where
  "settling s = (state s = Spring \<or> (state s = Idle \<and> pos s = springTarget s))"

text \<open>What holds of every controller the constructor and the events can produce.\<close>

definition invariant :: "CustomScroll \<Rightarrow> bool" where
  "invariant s =
     (minBound s = 0 \<and> 0 \<le> maxBound s
      \<and> (springTarget s = minBound s \<or> springTarget s = maxBound s)
      \<and> ((state s = Idle \<or> state s = Decel) \<longrightarrow>
           minBound s \<le> pos s \<and> pos s \<le> maxBound s)
      \<and> (state s = Drag \<longrightarrow> vel s = 0))"

subsection \<open>Example sessions\<close>

text \<open>
  A viewport of height 500 over a content of height 1500, and sessions on it:
  \<^item> a drag that ends 50 above the top;
  \<^item> a fast drag (3000 per second), and the coast one frame after its release;
  \<^item> a slow drag (5.2 per second), its release, the frame after it, and the same coast
    placed 0.05 above the bottom bound;
  \<^item> the one-move history of the specification;
  \<^item> the springing controller of the specification.

  The last example is a content that fits the viewport.
\<close>

definition page :: CustomScroll where
  "page = constructor 500 1500"

definition dragged_above :: CustomScroll where
  "dragged_above = run page [PointerDown 1 100 0, PointerMove 50 10]"

definition flicked :: CustomScroll where
  "flicked = run page [PointerDown 1 100 0, PointerMove 130 10]"

definition slow_drag :: CustomScroll where
  "slow_drag = run page [PointerDown 1 100 0, PointerMove 126 5000]"

definition coasting_slow :: CustomScroll where
  "coasting_slow = handle slow_drag PointerUp"

definition coasting_at_edge :: CustomScroll where
  "coasting_at_edge = coasting_slow\<lparr>pos := 999.95\<rparr>"

definition idle_after_coast :: CustomScroll where
  "idle_after_coast = handle coasting_slow Frame"

definition coasting_fast :: CustomScroll where
  "coasting_fast = run flicked [PointerUp, Frame]"

definition one_move :: CustomScroll where
  "one_move = run page [PointerDown 1 100 0, PointerMove 110 16.7]"

definition springing_back :: CustomScroll where
  "springing_back = page\<lparr>pos := 10, state := Spring\<rparr>"

definition fitting_page :: CustomScroll where
  "fitting_page = constructor 500 300"

text \<open>
  A drag in fractions of a pixel: the pointer goes down at 0.1 and moves to 0.2, to 0.9
  and back to 0.1 (the coordinates are the doubles nearest to these decimals).
\<close>

definition fine_drag :: CustomScroll where
  "fine_drag = pointerdown page 1 (fl 0.1) 0"

definition fine_moves :: "(real \<times> real) list" where
  "fine_moves = [(fl 0.2, 10), (fl 0.9, 20), (fl 0.1, 30)]"

definition after1 :: CustomScroll where
  "after1 = pointermove_fl fine_drag (fl 0.2) 10"

definition after2 :: CustomScroll where
  "after2 = pointermove_fl after1 (fl 0.9) 20"

definition after3 :: CustomScroll where
  "after3 = pointermove_fl after2 (fl 0.1) 30"

text \<open>Controllers with an empty content, in a viewport of height 500 and of height 0.\<close>

definition empty_page :: CustomScroll where
  "empty_page = constructor 500 0"

definition collapsed_page :: CustomScroll where
  "collapsed_page = constructor 0 0"

section \<open>The totals of the move history\<close>

lemma sumMoves_sum_list:
  "sumMoves ms a b = (a + sum_list (map dy ms), b + sum_list (map dt ms))"
  by (induction ms arbitrary: a b) simp_all

lemma estimateVelocity_sums:
  "estimateVelocity s =
     (if 0 < sum_list (map dt (moveHistory s))
      then sum_list (map dy (moveHistory s)) / sum_list (map dt (moveHistory s)) * 1000
      else 0)"
  by (simp add: estimateVelocity_def sumMoves_sum_list)

section \<open>The example sessions, evaluated\<close>

lemma page_eq:
  "page = \<lparr>vh = 500, ch = 1500, minBound = 0, maxBound = 1000, pos = 0, vel = 0,
     springTarget = 0, state = Idle, pointerId = None, lastY = 0, lastMoveTime = 0,
     moveHistory = []\<rparr>"
  by (simp add: page_def constructor_def animate_def)

lemma dragged_above_eq:
  "dragged_above = \<lparr>vh = 500, ch = 1500, minBound = 0, maxBound = 1000, pos = - 50,
     vel = 0, springTarget = 0, state = Drag, pointerId = Some 1, lastY = 50,
     lastMoveTime = 10, moveHistory = [\<lparr>dy = - 50, dt = 10\<rparr>]\<rparr>"
  by (simp add: dragged_above_def run_def page_eq pointerdown_def pointermove_def)

lemma flicked_eq:
  "flicked = \<lparr>vh = 500, ch = 1500, minBound = 0, maxBound = 1000, pos = 30,
     vel = 0, springTarget = 0, state = Drag, pointerId = Some 1, lastY = 130,
     lastMoveTime = 10, moveHistory = [\<lparr>dy = 30, dt = 10\<rparr>]\<rparr>"
  by (simp add: flicked_def run_def page_eq pointerdown_def pointermove_def)

lemma slow_drag_eq:
  "slow_drag = \<lparr>vh = 500, ch = 1500, minBound = 0, maxBound = 1000, pos = 26,
     vel = 0, springTarget = 0, state = Drag, pointerId = Some 1, lastY = 126,
     lastMoveTime = 5000, moveHistory = [\<lparr>dy = 26, dt = 5000\<rparr>]\<rparr>"
  by (simp add: slow_drag_def run_def page_eq pointerdown_def pointermove_def)

lemma coasting_slow_eq:
  "coasting_slow = \<lparr>vh = 500, ch = 1500, minBound = 0, maxBound = 1000, pos = 26,
     vel = 26 / 5, springTarget = 0, state = Decel, pointerId = None, lastY = 126,
     lastMoveTime = 5000, moveHistory = [\<lparr>dy = 26, dt = 5000\<rparr>]\<rparr>"
  by (simp add: coasting_slow_def slow_drag_eq pointerup_def estimateVelocity_def
      STOP_VEL_def MAX_VEL_def)

lemma idle_after_coast_eq:
  "idle_after_coast = \<lparr>vh = 500, ch = 1500, minBound = 0, maxBound = 1000,
     pos = 3913 / 150, vel = 247 / 50, springTarget = 0, state = Idle, pointerId = None,
     lastY = 126, lastMoveTime = 5000, moveHistory = [\<lparr>dy = 26, dt = 5000\<rparr>]\<rparr>"
  by (simp add: idle_after_coast_def coasting_slow_eq animate_def FRICTION_def STOP_VEL_def)

lemma one_move_eq:
  "one_move = \<lparr>vh = 500, ch = 1500, minBound = 0, maxBound = 1000, pos = 10,
     vel = 0, springTarget = 0, state = Drag, pointerId = Some 1, lastY = 110,
     lastMoveTime = 16.7, moveHistory = [\<lparr>dy = 10, dt = 16.7\<rparr>]\<rparr>"
  by (simp add: one_move_def run_def page_eq pointerdown_def pointermove_def)

lemma springing_back_eq:
  "springing_back = \<lparr>vh = 500, ch = 1500, minBound = 0, maxBound = 1000, pos = 10,
     vel = 0, springTarget = 0, state = Spring, pointerId = None, lastY = 0,
     lastMoveTime = 0, moveHistory = []\<rparr>"
  by (simp add: springing_back_def page_eq)

lemma fitting_page_eq:
  "fitting_page = \<lparr>vh = 500, ch = 300, minBound = 0, maxBound = 0, pos = 0, vel = 0,
     springTarget = 0, state = Idle, pointerId = None, lastY = 0, lastMoveTime = 0,
     moveHistory = []\<rparr>"
  by (simp add: fitting_page_def constructor_def animate_def)

section \<open>Release of the pointer\<close>

text \<open>
  Claim C1. On pointer up the next state is decided in this order, whatever the
  controller held before: a position below \<open>minBound\<close> or above \<open>maxBound\<close> sets
  \<open>springTarget\<close> to the violated bound and the state to \<open>Spring\<close>, and the estimated
  velocity plays no part (the velocity field keeps its value); otherwise an estimate
  \<open>v\<close> with \<open>|v| > 5\<close> sets the velocity to \<open>v\<close> clamped to \<open>[-2000, 2000]\<close> and the
  state to \<open>Decel\<close>; otherwise the state is \<open>Idle\<close>. The position is not changed.
\<close>

theorem pointerup_decision:
  "pos (pointerup s) = pos s
   \<and> (if pos s < minBound s \<or> pos s > maxBound s
       then state (pointerup s) = Spring
          \<and> springTarget (pointerup s) = (if pos s < minBound s then minBound s else maxBound s)
          \<and> vel (pointerup s) = vel s
       else if \<bar>estimateVelocity s\<bar> > 5
       then state (pointerup s) = Decel
          \<and> vel (pointerup s) = max (min (estimateVelocity s) 2000) (- 2000)
          \<and> springTarget (pointerup s) = springTarget s
       else state (pointerup s) = Idle
          \<and> vel (pointerup s) = vel s
          \<and> springTarget (pointerup s) = springTarget s)"
  by (simp add: pointerup_def Let_def estimateVelocity_def STOP_VEL_def MAX_VEL_def)

text \<open>
  The two releases of the specification: from 50 above the top with an estimate of -5000
  the controller springs to 0, and an estimate of 3000 within the bounds coasts at 2000.
\<close>

theorem pointerup_decision_witness:
  "estimateVelocity dragged_above = - 5000
   \<and> state (pointerup dragged_above) = Spring
   \<and> springTarget (pointerup dragged_above) = 0
   \<and> estimateVelocity flicked = 3000
   \<and> state (pointerup flicked) = Decel
   \<and> vel (pointerup flicked) = 2000"
proof -
  have a: "pos dragged_above = - 50" "minBound dragged_above = 0"
    "estimateVelocity dragged_above = - 5000"
    by (simp_all add: dragged_above_eq estimateVelocity_def)
  have f: "pos flicked = 30" "minBound flicked = 0" "maxBound flicked = 1000"
    "estimateVelocity flicked = 3000"
    by (simp_all add: flicked_eq estimateVelocity_def)
  show ?thesis
    using pointerup_decision [of dragged_above] pointerup_decision [of flicked]
    by (simp add: a f)
qed

section \<open>The velocity estimate\<close>

text \<open>
  Claim C5, amended. \<open>estimateVelocity\<close> returns the sum of the displacements of the
  history divided by the sum of its elapsed times, times 1000, when that sum of times is
  positive, and 0 otherwise. On the empty history it returns 0. On the one-entry history
  with displacement 10 and elapsed time 16.7 it returns 100000/167, which is 598.8 to one
  decimal place (not 599.4).
\<close>

theorem estimateVelocity_average:
  "estimateVelocity s =
     (if 0 < sum_list (map dt (moveHistory s))
      then sum_list (map dy (moveHistory s)) / sum_list (map dt (moveHistory s)) * 1000
      else 0)
   \<and> (moveHistory s = [] \<longrightarrow> estimateVelocity s = 0)
   \<and> (moveHistory s = [\<lparr>dy = 10, dt = 16.7\<rparr>] \<longrightarrow>
        estimateVelocity s = 100000 / 167 \<and> \<bar>estimateVelocity s - 598.8\<bar> < 0.01)"
  by (simp add: estimateVelocity_sums)

theorem estimateVelocity_average_witness:
  "moveHistory page = [] \<and> estimateVelocity page = 0
   \<and> moveHistory one_move = [\<lparr>dy = 10, dt = 16.7\<rparr>]
   \<and> estimateVelocity one_move = 100000 / 167"
proof -
  have h: "moveHistory page = []" "moveHistory one_move = [\<lparr>dy = 10, dt = 16.7\<rparr>]"
    by (simp_all add: page_eq one_move_eq)
  have "estimateVelocity page = 0"
    using estimateVelocity_average [of page] h(1) by blast
  moreover have "estimateVelocity one_move = 100000 / 167"
    using estimateVelocity_average [of one_move] h(2) by blast
  ultimately show ?thesis
    using h by blast
qed

text \<open>
  The estimate on the one-move history of the specification is more than 0.59 away from
  599.4.
\<close>

theorem estimateVelocity_not_599_4:
  "0.59 < \<bar>estimateVelocity one_move - 599.4\<bar>"
  by (simp add: one_move_eq estimateVelocity_def)

section \<open>The coasting tick\<close>

lemma animate_Decel:
  assumes "state s = Decel"
  shows "pos (animate s) = pos s + vel s * (1 / 60)"
    and "vel (animate s) = vel s * 0.95"
    and "minBound (animate s) = minBound s"
    and "maxBound (animate s) = maxBound s"
    and "state (animate s) =
           (if pos (animate s) < minBound s \<or> pos (animate s) > maxBound s then Spring
            else if \<bar>vel (animate s)\<bar> < 5 then Idle else Decel)"
    and "springTarget (animate s) =
           (if pos (animate s) < minBound s then minBound s
            else if pos (animate s) > maxBound s then maxBound s
            else springTarget s)"
  using assms by (simp_all add: animate_def Let_def FRICTION_def STOP_VEL_def)

lemma animate_Idle: "state s = Idle \<Longrightarrow> animate s = s"
  by (simp add: animate_def)

lemma animate_Drag: "state s = Drag \<Longrightarrow> animate s = s"
  by (simp add: animate_def)

text \<open>
  Claim C2. A tick in state \<open>Decel\<close> adds \<open>velocity * (1/60)\<close> to the position and
  then multiplies the velocity by 0.95. Of the two exit checks that follow, the bounds
  test has the last word: with the new position out of the bounds the state is
  \<open>Spring\<close> and \<open>springTarget\<close> the violated bound, also when the new velocity is below
  5 in absolute value; within the bounds the state is \<open>Idle\<close> when the new velocity is
  below 5 in absolute value and stays \<open>Decel\<close> otherwise. So the tick never ends in
  \<open>Idle\<close> with the position out of the bounds.
\<close>

theorem animate_Decel_tick:
  assumes "state s = Decel"
  shows "pos (animate s) = pos s + vel s * (1 / 60)
    \<and> vel (animate s) = vel s * 0.95
    \<and> (if pos (animate s) < minBound s \<or> pos (animate s) > maxBound s
        then state (animate s) = Spring
           \<and> springTarget (animate s) =
               (if pos (animate s) < minBound s then minBound s else maxBound s)
        else if \<bar>vel (animate s)\<bar> < 5 then state (animate s) = Idle
        else state (animate s) = Decel)
    \<and> (state (animate s) = Idle \<longrightarrow>
         minBound s \<le> pos (animate s) \<and> pos (animate s) \<le> maxBound s)"
  using animate_Decel [OF assms] by (simp split: if_splits)

text \<open>
  The slow coast (velocity 5.2 at position 26) stops in the next tick within the bounds;
  the same coast from 0.05 above the bottom bound leaves the bounds with a velocity
  below 5, and springs.
\<close>

theorem animate_Decel_tick_witness:
  "state coasting_slow = Decel
   \<and> pos (animate coasting_slow) = 26 + 5.2 / 60
   \<and> vel (animate coasting_slow) = 4.94
   \<and> state (animate coasting_slow) = Idle
   \<and> state coasting_at_edge = Decel
   \<and> \<bar>vel (animate coasting_at_edge)\<bar> < 5
   \<and> state (animate coasting_at_edge) = Spring
   \<and> springTarget (animate coasting_at_edge) = 1000"
proof -
  have c: "state coasting_slow = Decel" "pos coasting_slow = 26" "vel coasting_slow = 5.2"
    "minBound coasting_slow = 0" "maxBound coasting_slow = 1000"
    by (simp_all add: coasting_slow_eq)
  have e: "state coasting_at_edge = Decel" "pos coasting_at_edge = 999.95"
    "vel coasting_at_edge = 5.2" "minBound coasting_at_edge = 0"
    "maxBound coasting_at_edge = 1000"
    by (simp_all add: coasting_at_edge_def c)
  note tick = animate_Decel_tick [OF c(1)]
  note edge = animate_Decel_tick [OF e(1)]
  have p: "pos (animate coasting_slow) = 26 + 5.2 / 60"
    using tick [THEN conjunct1] by (simp add: c)
  have v: "vel (animate coasting_slow) = 4.94"
    using tick [THEN conjunct2, THEN conjunct1] by (simp add: c)
  have st: "state (animate coasting_slow) = Idle"
    using tick [THEN conjunct2, THEN conjunct2, THEN conjunct1] by (simp add: c p v)
  have p': "pos (animate coasting_at_edge) = 999.95 + 5.2 / 60"
    using edge [THEN conjunct1] by (simp add: e)
  have v': "vel (animate coasting_at_edge) = 4.94"
    using edge [THEN conjunct2, THEN conjunct1] by (simp add: e)
  have st': "state (animate coasting_at_edge) = Spring
      \<and> springTarget (animate coasting_at_edge) = 1000"
    using edge [THEN conjunct2, THEN conjunct2, THEN conjunct1] by (simp add: e p')
  show ?thesis
    using c(1) p v st e(1) st' by (simp add: v')
qed

section \<open>The spring tick\<close>

lemma decimals: "(0.15::real) = 3 / 20" "(0.85::real) = 17 / 20" "(0.5::real) = 1 / 2"
  by simp_all

lemma spring_step_arith: "(t::real) - (p + (t - p) * 0.15) = 0.85 * (t - p)"
  unfolding decimals by argo

lemma spring_shrink: "\<bar>0.85 * (d::real)\<bar> \<le> \<bar>d\<bar>"
  unfolding decimals by linarith

lemma spring_abs: "\<bar>0.85 * (d::real)\<bar> = \<bar>d\<bar> * 0.85"
  unfolding decimals by linarith

lemma spring_side: "0 \<le> (0.85 * (d::real)) * d"
proof -
  have "0 \<le> d * d" by simp
  then have "0 \<le> 0.85 * (d * d)" by (rule mult_nonneg_nonneg [rotated]) simp
  then show ?thesis by (simp only: mult.assoc)
qed

lemma pow_below:
  fixes d :: real
  assumes n: "(0.85::real) ^ n < 0.5 / (\<bar>d\<bar> + 1)"
  shows "\<bar>d\<bar> * 0.85 ^ n < 0.5"
proof -
  have d1: "0 < \<bar>d\<bar> + 1" by linarith
  have "\<bar>d\<bar> * 0.85 ^ n \<le> (\<bar>d\<bar> + 1) * 0.85 ^ n"
    by (rule mult_right_mono) simp_all
  also have "\<dots> < (\<bar>d\<bar> + 1) * (0.5 / (\<bar>d\<bar> + 1))"
    using n d1 by (rule mult_strict_left_mono)
  also have "\<dots> = 0.5" using d1 by simp
  finally show ?thesis .
qed

lemma same_side_trans:
  fixes a b c :: real
  assumes "0 \<le> a * b" and "0 \<le> b * c" and "\<bar>a\<bar> \<le> \<bar>b\<bar>"
  shows "0 \<le> a * c"
proof (cases "b = 0")
  case True
  then show ?thesis using assms(3) by simp
next
  case False
  then show ?thesis using assms(1,2)
    by (auto simp: zero_le_mult_iff)
qed

lemma animate_Spring:
  assumes "state s = Spring"
  shows "vel (animate s) = (springTarget s - pos s) * 0.15"
    and "springTarget (animate s) = springTarget s"
    and "minBound (animate s) = minBound s"
    and "maxBound (animate s) = maxBound s"
    and "state (animate s) = (if \<bar>springTarget s - pos s\<bar> < 0.5 then Idle else Spring)"
    and "pos (animate s) =
           (if \<bar>springTarget s - pos s\<bar> < 0.5 then springTarget s
            else pos s + (springTarget s - pos s) * 0.15)"
  using assms by (simp_all add: animate_def Let_def SPRING_K_def)

text \<open>A tick that does not snap leaves 0.85 of the distance to the target.\<close>

lemma spring_pull:
  assumes "state s = Spring" and "\<not> \<bar>springTarget s - pos s\<bar> < 0.5"
  shows "springTarget s - pos (animate s) = 0.85 * (springTarget s - pos s)"
proof -
  have "pos (animate s) = pos s + (springTarget s - pos s) * 0.15"
    using assms by (simp only: animate_Spring(6) if_False)
  then show ?thesis by (simp only: spring_step_arith)
qed

lemma settling_animate:
  assumes "settling s"
  shows "settling (animate s)"
    and "springTarget (animate s) = springTarget s"
    and "\<bar>springTarget s - pos (animate s)\<bar> \<le> \<bar>springTarget s - pos s\<bar>"
    and "0 \<le> (springTarget s - pos (animate s)) * (springTarget s - pos s)"
proof -
  consider (idle) "state s = Idle" "pos s = springTarget s"
    | (snap) "state s = Spring" "\<bar>springTarget s - pos s\<bar> < 0.5"
    | (pull) "state s = Spring" "\<not> \<bar>springTarget s - pos s\<bar> < 0.5"
    using assms by (auto simp: settling_def)
  then have "settling (animate s) \<and> springTarget (animate s) = springTarget s
      \<and> \<bar>springTarget s - pos (animate s)\<bar> \<le> \<bar>springTarget s - pos s\<bar>
      \<and> 0 \<le> (springTarget s - pos (animate s)) * (springTarget s - pos s)"
  proof cases
    case idle
    then show ?thesis using assms by (simp add: animate_Idle)
  next
    case snap
    then show ?thesis
      by (simp add: settling_def animate_Spring(2,5,6))
  next
    case pull
    have "settling (animate s)" "springTarget (animate s) = springTarget s"
      using pull by (simp_all add: settling_def animate_Spring(2,5))
    then show ?thesis
      by (simp only: spring_pull [OF pull] spring_shrink spring_side simp_thms)
  qed
  then show "settling (animate s)"
    and "springTarget (animate s) = springTarget s"
    and "\<bar>springTarget s - pos (animate s)\<bar> \<le> \<bar>springTarget s - pos s\<bar>"
    and "0 \<le> (springTarget s - pos (animate s)) * (springTarget s - pos s)"
    by simp_all
qed

lemma settling_funpow:
  assumes "settling s"
  shows "settling ((animate ^^ n) s) \<and> springTarget ((animate ^^ n) s) = springTarget s"
proof (induction n)
  case 0
  then show ?case using assms by simp
next
  case (Suc n)
  then show ?case using settling_animate(1,2) [of "(animate ^^ n) s"] by simp
qed

text \<open>The distance to the target never grows from one tick to the next.\<close>

lemma spring_monotone:
  assumes "settling s"
  shows "\<bar>springTarget s - pos ((animate ^^ Suc n) s)\<bar>
           \<le> \<bar>springTarget s - pos ((animate ^^ n) s)\<bar>"
  using settling_funpow [OF assms, of n] settling_animate(3) [of "(animate ^^ n) s"] by simp

text \<open>The position never crosses the target.\<close>

lemma spring_same_side:
  assumes "settling s"
  shows "0 \<le> (springTarget s - pos ((animate ^^ n) s)) * (springTarget s - pos s)"
proof (induction n)
  case 0
  then show ?case by simp
next
  case (Suc n)
  let ?t = "(animate ^^ n) s"
  have st: "settling ?t" "springTarget ?t = springTarget s"
    using settling_funpow [OF assms, of n] by simp_all
  have a: "0 \<le> (springTarget s - pos (animate ?t)) * (springTarget s - pos ?t)"
    using settling_animate(4) [OF st(1)] st(2) by simp
  have b: "\<bar>springTarget s - pos (animate ?t)\<bar> \<le> \<bar>springTarget s - pos ?t\<bar>"
    using settling_animate(3) [OF st(1)] st(2) by simp
  have "0 \<le> (springTarget s - pos (animate ?t)) * (springTarget s - pos s)"
    using a Suc.IH b by (rule same_side_trans)
  then show ?case by simp
qed

text \<open>
  Once \<open>0.85 ^ n\<close> times the distance is below 0.5, the spring has snapped after at
  most \<open>n + 1\<close> ticks.
\<close>

lemma spring_snaps_within:
  "state s = Spring \<Longrightarrow> \<bar>springTarget s - pos s\<bar> * 0.85 ^ n < 0.5 \<Longrightarrow>
     \<exists>k. state ((animate ^^ k) s) = Idle \<and> pos ((animate ^^ k) s) = springTarget s"
proof (induction n arbitrary: s)
  case 0
  then have "state ((animate ^^ 1) s) = Idle \<and> pos ((animate ^^ 1) s) = springTarget s"
    by (simp add: animate_Spring(5,6))
  then show ?case by blast
next
  case (Suc n)
  show ?case
  proof (cases "\<bar>springTarget s - pos s\<bar> < 0.5")
    case True
    then have "state ((animate ^^ 1) s) = Idle \<and> pos ((animate ^^ 1) s) = springTarget s"
      using Suc.prems(1) by (simp add: animate_Spring(5,6))
    then show ?thesis by blast
  next
    case False
    let ?t = "animate s"
    have t: "state ?t = Spring" "springTarget ?t = springTarget s"
      using False Suc.prems(1) by (simp_all add: animate_Spring(2,5))
    have "\<bar>springTarget ?t - pos ?t\<bar> * 0.85 ^ n = \<bar>springTarget s - pos s\<bar> * 0.85 ^ Suc n"
      by (simp only: t(2) spring_pull [OF Suc.prems(1) False] spring_abs power_Suc mult.assoc)
    then have "\<bar>springTarget ?t - pos ?t\<bar> * 0.85 ^ n < 0.5"
      using Suc.prems(2) by (simp only:)
    from Suc.IH [OF t(1) this] obtain k where "state ((animate ^^ k) ?t) = Idle"
      "pos ((animate ^^ k) ?t) = springTarget ?t"
      by blast
    then have "state ((animate ^^ Suc k) s) = Idle \<and> pos ((animate ^^ Suc k) s) = springTarget s"
      using t(2) by (simp add: funpow_swap1)
    then show ?thesis by blast
  qed
qed

lemma spring_snaps:
  assumes "state s = Spring"
  shows "\<exists>k. state ((animate ^^ k) s) = Idle \<and> pos ((animate ^^ k) s) = springTarget s"
proof -
  let ?d = "springTarget s - pos s"
  have "0 < \<bar>?d\<bar> + 1" by linarith
  then have "0 < 0.5 / (\<bar>?d\<bar> + 1)" by simp
  then obtain n where "(0.85::real) ^ n < 0.5 / (\<bar>?d\<bar> + 1)"
    using real_arch_pow_inv [of "0.5 / (\<bar>?d\<bar> + 1)" "0.85"] by auto
  then have "\<bar>?d\<bar> * 0.85 ^ n < 0.5" by (rule pow_below)
  then show ?thesis using spring_snaps_within [OF assms] by blast
qed

text \<open>
  Claim C3. A tick in state \<open>Spring\<close> computes \<open>delta = springTarget - position\<close>, sets
  the velocity to \<open>delta * 0.15\<close> and adds it to the position; when \<open>|delta| < 0.5\<close>
  the tick ends with the position equal to \<open>springTarget\<close> and the state \<open>Idle\<close>. From
  position 10 with target 0 one tick gives position 8.5. Over repeated ticks the distance
  to the target never grows and the position never crosses the target, and after finitely
  many ticks the controller is \<open>Idle\<close> exactly on the target.
\<close>

theorem animate_Spring_tick:
  assumes "state s = Spring"
  shows "vel (animate s) = (springTarget s - pos s) * 0.15
    \<and> (if \<bar>springTarget s - pos s\<bar> < 0.5
        then pos (animate s) = springTarget s \<and> state (animate s) = Idle
        else pos (animate s) = pos s + vel (animate s) \<and> state (animate s) = Spring)
    \<and> (pos s = 10 \<and> springTarget s = 0 \<longrightarrow> pos (animate s) = 8.5)
    \<and> (\<forall>n. \<bar>springTarget s - pos ((animate ^^ Suc n) s)\<bar>
              \<le> \<bar>springTarget s - pos ((animate ^^ n) s)\<bar>
           \<and> 0 \<le> (springTarget s - pos ((animate ^^ n) s)) * (springTarget s - pos s))
    \<and> (\<exists>k. state ((animate ^^ k) s) = Idle \<and> pos ((animate ^^ k) s) = springTarget s)"
proof -
  have set: "settling s" using assms by (simp add: settling_def)
  have one: "vel (animate s) = (springTarget s - pos s) * 0.15
    \<and> (if \<bar>springTarget s - pos s\<bar> < 0.5
        then pos (animate s) = springTarget s \<and> state (animate s) = Idle
        else pos (animate s) = pos s + vel (animate s) \<and> state (animate s) = Spring)"
    using assms by (simp add: animate_Spring(1,5,6))
  have ex: "pos s = 10 \<and> springTarget s = 0 \<longrightarrow> pos (animate s) = 8.5"
    using assms by (simp add: animate_Spring(6))
  show ?thesis
    using one ex spring_monotone [OF set] spring_same_side [OF set] spring_snaps [OF assms]
    by blast
qed

text \<open>The springing controller of the specification: position 10, target 0.\<close>

theorem animate_Spring_tick_witness:
  "state springing_back = Spring \<and> pos springing_back = 10 \<and> springTarget springing_back = 0
   \<and> vel (animate springing_back) = - 1.5
   \<and> pos (animate springing_back) = 8.5
   \<and> state (animate springing_back) = Spring"
proof -
  have c: "state springing_back = Spring" "pos springing_back = 10"
    "springTarget springing_back = 0"
    by (simp_all add: springing_back_eq)
  note tick = animate_Spring_tick [OF c(1)]
  have v: "vel (animate springing_back) = - 1.5"
    using tick [THEN conjunct1] by (simp add: c)
  have p: "pos (animate springing_back) = 8.5"
    using tick [THEN conjunct2, THEN conjunct2, THEN conjunct1] c by blast
  have st: "state (animate springing_back) = Spring"
    using tick [THEN conjunct2, THEN conjunct1] by (simp add: c)
  show ?thesis
    using c v p st by blast
qed

section \<open>The rounding to doubles\<close>

text \<open>The rounding of a real to an integer is at most one half away from it.\<close>

lemma roundTiesToEven_nearest: "\<bar>of_int (roundTiesToEven r) - r\<bar> \<le> 1 / 2"
  unfolding roundTiesToEven_def Let_def by (auto split: if_splits)

text \<open>\<open>bitlength n\<close> is the number of binary digits of \<open>n\<close>.\<close>

lemma bitlength_bounds:
  "0 < n \<Longrightarrow> (2::nat) ^ (bitlength n - 1) \<le> n \<and> n < (2::nat) ^ bitlength n"
proof (induction n rule: bitlength.induct)
  case (1 n)
  show ?case
  proof (cases "n div 2 = 0")
    case True
    then have "n = 1" using "1.prems" by linarith
    then show ?thesis by (simp add: bitlength.simps)
  next
    case False
    then have ih: "(2::nat) ^ (bitlength (n div 2) - 1) \<le> n div 2"
      "n div 2 < (2::nat) ^ bitlength (n div 2)"
      using "1.IH" "1.prems" by simp_all
    have pos: "0 < bitlength (n div 2)"
      using False by (subst bitlength.simps) simp
    have b: "bitlength n = Suc (bitlength (n div 2))"
      using "1.prems" by (subst bitlength.simps) simp
    have "(2::nat) ^ (bitlength n - 1) = 2 * 2 ^ (bitlength (n div 2) - 1)"
      using pos b by (cases "bitlength (n div 2)") simp_all
    moreover have "2 * (n div 2) \<le> n" by simp
    moreover have "n < 2 * (n div 2) + 2" by linarith
    ultimately show ?thesis using ih b by simp linarith
  qed
qed


text \<open>\<open>exponent a\<close> is the binary exponent of \<open>a\<close>.\<close>

lemma exponent_bounds:
  assumes "0 < a"
  shows "pow2 (exponent a) \<le> a \<and> a < pow2 (exponent a + 1)"
proof (cases "1 \<le> a")
  case True
  let ?n = "nat \<lfloor>a\<rfloor>"
  have n: "0 < ?n" using True by simp
  have fa: "real ?n \<le> a" "a < real ?n + 1"
    using True by simp_all
  note b = bitlength_bounds [OF n]
  have k: "0 < bitlength ?n" using n by (subst bitlength.simps) simp
  have e: "exponent a = int (bitlength ?n) - 1"
    using True by (simp add: exponent_def)
  have lo: "pow2 (exponent a) = 2 ^ (bitlength ?n - 1)"
    using k by (simp add: e pow2_def nat_diff_distrib')
  have hi: "pow2 (exponent a + 1) = 2 ^ bitlength ?n"
    by (simp add: e pow2_def)
  have "real (2 ^ (bitlength ?n - 1)) \<le> real ?n"
    using b by (simp only: of_nat_le_iff)
  then have A: "(2::real) ^ (bitlength ?n - 1) \<le> real ?n"
    by (simp only: of_nat_power of_nat_numeral)
  have "real ?n + 1 \<le> real (2 ^ bitlength ?n)"
    using b by (metis Suc_leI of_nat_Suc of_nat_le_iff add.commute)
  then have B: "real ?n + 1 \<le> (2::real) ^ bitlength ?n"
    by (simp only: of_nat_power of_nat_numeral)
  show ?thesis unfolding lo hi using A B fa by linarith
next
  case False
  let ?m = "nat (\<lceil>1 / a\<rceil> - 1)"
  have r: "1 < 1 / a" using False assms by simp
  then have c: "2 \<le> \<lceil>1 / a\<rceil>" by linarith
  then have m: "0 < ?m" by simp
  have z: "0 \<le> \<lceil>1 / a\<rceil> - 1" using c by linarith
  have mi: "int ?m = \<lceil>1 / a\<rceil> - 1"
    by (simp only: int_nat_eq z if_True)
  have "real ?m = of_int (\<lceil>1 / a\<rceil> - 1)"
    by (metis mi of_int_of_nat_eq)
  then have mm: "real ?m = of_int \<lceil>1 / a\<rceil> - 1"
    by (simp only: of_int_diff of_int_1)
  have cl: "1 / a \<le> real ?m + 1" "real ?m < 1 / a"
    unfolding mm by linarith+
  note b = bitlength_bounds [OF m]
  have k: "0 < bitlength ?m" using m by (subst bitlength.simps) simp
  have e: "exponent a = - int (bitlength ?m)"
    using False by (simp add: exponent_def)
  have lo: "pow2 (exponent a) = 1 / 2 ^ bitlength ?m"
    using k by (simp add: e pow2_def)
  have hi: "pow2 (exponent a + 1) = 1 / 2 ^ (bitlength ?m - 1)"
    using k by (cases "bitlength ?m") (simp_all add: e pow2_def nat_diff_distrib')
  have "real (2 ^ (bitlength ?m - 1)) \<le> real ?m"
    using b by (simp only: of_nat_le_iff)
  then have "(2::real) ^ (bitlength ?m - 1) \<le> real ?m"
    by (simp only: of_nat_power of_nat_numeral)
  then have 1: "(2::real) ^ (bitlength ?m - 1) < 1 / a" using cl(2) by linarith
  have "real ?m + 1 \<le> real (2 ^ bitlength ?m)"
    using b by (metis Suc_leI of_nat_Suc of_nat_le_iff add.commute)
  then have "real ?m + 1 \<le> (2::real) ^ bitlength ?m"
    by (simp only: of_nat_power of_nat_numeral)
  then have 2: "1 / a \<le> (2::real) ^ bitlength ?m" using cl(1) by linarith
  have p: "(0::real) < 2 ^ bitlength ?m" "(0::real) < 2 ^ (bitlength ?m - 1)"
    by simp_all
  have "1 / 2 ^ bitlength ?m \<le> a"
    using 2 assms p(1) by (simp add: field_simps)
  moreover have "a < 1 / 2 ^ (bitlength ?m - 1)"
    using 1 assms p(2) by (simp add: field_simps)
  ultimately show ?thesis unfolding lo hi by blast
qed

lemma pow2_positive: "0 < pow2 e"
  by (simp add: pow2_def)

text \<open>
  \<open>fl x\<close> is a multiple of the spacing of the doubles at \<open>x\<close>, at most half a spacing
  away from \<open>x\<close>.
\<close>

lemma fl_nearest:
  assumes "x \<noteq> 0" and "q = pow2 (max (exponent \<bar>x\<bar>) (- 1022) - 52)"
  shows "fl x = of_int (roundTiesToEven (x / q)) * q" and "\<bar>fl x - x\<bar> \<le> q / 2"
proof -
  have q: "0 < q" unfolding assms(2) by (rule pow2_positive)
  show f: "fl x = of_int (roundTiesToEven (x / q)) * q"
    using assms by (simp add: fl_def Let_def)
  have "fl x - x = (of_int (roundTiesToEven (x / q)) - x / q) * q"
    using q by (simp add: f algebra_simps)
  then have "\<bar>fl x - x\<bar> = \<bar>of_int (roundTiesToEven (x / q)) - x / q\<bar> * q"
    using q by (simp add: abs_mult)
  also have "\<dots> \<le> (1 / 2) * q"
    using roundTiesToEven_nearest [of "x / q"] q by (intro mult_right_mono) simp_all
  finally show "\<bar>fl x - x\<bar> \<le> q / 2" by simp
qed

section \<open>Dragging\<close>

lemma pointermove_Drag:
  assumes "state s = Drag"
  shows "state (pointermove s y t) = Drag"
    and "lastY (pointermove s y t) = y"
    and "minBound (pointermove s y t) = minBound s"
    and "maxBound (pointermove s y t) = maxBound s"
    and "vel (pointermove s y t) = vel s"
    and "springTarget (pointermove s y t) = springTarget s"
    and "pos (pointermove s y t) =
           (if pos s < minBound s \<or> pos s > maxBound s
            then pos s + (y - lastY s) * 0.4 else pos s + (y - lastY s))"
  using assms by (simp_all add: pointermove_def Let_def)

lemma pointermove_other: "state s \<noteq> Drag \<Longrightarrow> pointermove s y t = s"
  by (simp add: pointermove_def)

lemma pointermove_fl_Drag:
  assumes "state s = Drag"
  shows "state (pointermove_fl s y t) = Drag"
    and "lastY (pointermove_fl s y t) = y"
    and "minBound (pointermove_fl s y t) = minBound s"
    and "maxBound (pointermove_fl s y t) = maxBound s"
    and "pos (pointermove_fl s y t) =
           (if pos s < minBound s \<or> pos s > maxBound s
            then fl (pos s + fl (fl (y - lastY s) * fl 0.4))
            else fl (pos s + fl (y - lastY s)))"
  using assms by (simp_all add: pointermove_fl_def Let_def)

text \<open>
  Over a run of moves that each start within the bounds, the position is the rounded
  running sum of the rounded displacements.
\<close>

lemma moves_fl_within_bounds:
  "state s = Drag \<Longrightarrow> movesWithinBounds_fl s ms \<Longrightarrow>
     pos (moves_fl s ms) = sum_fl (pos s) (displacements_fl (lastY s) (map fst ms))"
proof (induction ms arbitrary: s)
  case Nil
  then show ?case by simp
next
  case (Cons m ms)
  obtain y t where m: "m = (y, t)" by (cases m)
  let ?s = "pointermove_fl s y t"
  have inb: "minBound s \<le> pos s" "pos s \<le> maxBound s" "movesWithinBounds_fl ?s ms"
    using Cons.prems(2) by (simp_all add: m)
  have step: "state ?s = Drag" "lastY ?s = y" "pos ?s = fl (pos s + fl (y - lastY s))"
    using inb(1,2) by (simp_all add: pointermove_fl_Drag [OF Cons.prems(1)])
  have "pos (moves_fl ?s ms) = sum_fl (pos ?s) (displacements_fl (lastY ?s) (map fst ms))"
    using Cons.IH [OF step(1) inb(3)] .
  then show ?case by (simp add: m step)
qed

subsection \<open>The drag in fractions of a pixel, evaluated\<close>

lemma bitlength_numeral:
  "bitlength (numeral k) = Suc (bitlength (numeral k div 2))"
  "bitlength 0 = 0" "bitlength (Suc 0) = Suc 0"
  by (simp_all add: bitlength.simps)

lemmas fl_eval = fl_def exponent_def bitlength_numeral pow2_def roundTiesToEven_def Let_def

text \<open>The doubles nearest to the decimals of the example.\<close>

lemma fl_inputs:
  "fl 0.1 = 3602879701896397 / 36028797018963968"
  "fl 0.2 = 3602879701896397 / 18014398509481984"
  "fl 0.9 = 8106479329266893 / 9007199254740992"
  "fl 10.1 = 5685794529555251 / 562949953421312"
  "fl 0.4 = 3602879701896397 / 9007199254740992"
  by (simp_all add: fl_eval)

text \<open>The displacements that the listener computes, and the sum 0.1 + 0.7.\<close>

lemma fl_steps:
  "fl (fl 0.2 - fl 0.1) = 3602879701896397 / 36028797018963968"
  "fl (fl 0.9 - fl 0.2) = 3152519739159347 / 4503599627370496"
  "fl (fl 0.1 - fl 0.9) = - (3602879701896397 / 4503599627370496)"
  "fl (3602879701896397 / 36028797018963968 + 3152519739159347 / 4503599627370496)
     = 7205759403792793 / 9007199254740992"
  "fl (fl 10.1 - fl 0.1) = 10"
  "fl (10 * fl 0.4) = 4"
  unfolding fl_inputs by (simp_all add: fl_eval)

lemma fine_drag_fields:
  "state fine_drag = Drag" "pos fine_drag = 0" "minBound fine_drag = 0"
  "maxBound fine_drag = 1000" "lastY fine_drag = fl 0.1"
  by (simp_all add: fine_drag_def pointerdown_def page_eq)

lemma after1_fields:
  "state after1 = Drag" "minBound after1 = 0" "maxBound after1 = 1000"
  "lastY after1 = fl 0.2" "pos after1 = 3602879701896397 / 36028797018963968"
  unfolding after1_def
  by (simp_all add: pointermove_fl_Drag [OF fine_drag_fields(1)] fine_drag_fields fl_eval)

lemma after2_fields:
  "state after2 = Drag" "minBound after2 = 0" "maxBound after2 = 1000"
  "lastY after2 = fl 0.9" "pos after2 = 7205759403792793 / 9007199254740992"
  unfolding after2_def
  by (simp_all add: pointermove_fl_Drag [OF after1_fields(1)] after1_fields fl_eval)

lemma after3_fields:
  "state after3 = Drag" "minBound after3 = 0" "maxBound after3 = 1000"
  "lastY after3 = fl 0.1" "pos after3 = - (1 / 9007199254740992)"
  unfolding after3_def
  by (simp_all add: pointermove_fl_Drag [OF after2_fields(1)] after2_fields fl_eval)

lemma after4_pos: "pos (pointermove_fl after3 (fl 10.1) 40) = 4"
  by (simp add: pointermove_fl_Drag [OF after3_fields(1)] after3_fields fl_eval)

lemma fine_moves_run:
  "moves_fl fine_drag fine_moves = after3"
  "movesWithinBounds_fl fine_drag fine_moves"
proof -
  show "moves_fl fine_drag fine_moves = after3"
    by (simp add: fine_moves_def after1_def after2_def after3_def)
  have "movesWithinBounds_fl fine_drag fine_moves
      = (minBound fine_drag \<le> pos fine_drag \<and> pos fine_drag \<le> maxBound fine_drag
         \<and> minBound after1 \<le> pos after1 \<and> pos after1 \<le> maxBound after1
         \<and> minBound after2 \<le> pos after2 \<and> pos after2 \<le> maxBound after2)"
    by (simp add: fine_moves_def after1_def after2_def)
  then show "movesWithinBounds_fl fine_drag fine_moves"
    by (simp add: fine_drag_fields after1_fields after2_fields)
qed

lemma fine_moves_sums:
  "sum_list (displacements (lastY fine_drag) (map fst fine_moves)) = 0"
  "sum_list (displacements_fl (lastY fine_drag) (map fst fine_moves))
     = - (3 / 36028797018963968)"
proof -
  show "sum_list (displacements (lastY fine_drag) (map fst fine_moves)) = 0"
    by (simp add: fine_moves_def fine_drag_fields)
  show "sum_list (displacements_fl (lastY fine_drag) (map fst fine_moves))
     = - (3 / 36028797018963968)"
    by (simp add: fine_moves_def fine_drag_fields fl_eval)
qed

subsection \<open>The damping of a move\<close>

text \<open>
  Claim C4, amended. A pointer move handled in state \<open>Drag\<close> adds to the position the
  raw displacement of the pointer (its \<open>clientY\<close> minus the reference) when the
  position before the move lies within \<open>[minBound, maxBound]\<close>, and 0.4 times the
  displacement when it lies outside. In exact arithmetic the change of the position is
  the displacement times 1.0, or times 0.4. In the double arithmetic of the listener the
  displacement, the product and the sum are each rounded; hence over a run of drag moves
  that each start within the bounds, the position is the rounded running sum of the
  rounded displacements (which need not be their exact sum).
\<close>

theorem pointermove_damping:
  assumes "state s = Drag"
  shows "(minBound s \<le> pos s \<and> pos s \<le> maxBound s \<longrightarrow>
            pos (pointermove s y t) - pos s = (y - lastY s) * 1.0
            \<and> pos (pointermove_fl s y t) = fl (pos s + fl (y - lastY s)))
    \<and> (pos s < minBound s \<or> maxBound s < pos s \<longrightarrow>
            pos (pointermove s y t) - pos s = (y - lastY s) * 0.4
            \<and> pos (pointermove_fl s y t) = fl (pos s + fl (fl (y - lastY s) * fl 0.4)))
    \<and> (movesWithinBounds_fl s ms \<longrightarrow>
            pos (moves_fl s ms) = sum_fl (pos s) (displacements_fl (lastY s) (map fst ms)))"
  using moves_fl_within_bounds [OF assms, of ms]
  by (simp add: pointermove_Drag(7) [OF assms] pointermove_fl_Drag(5) [OF assms])

text \<open>
  A move of the fast drag from 130 to 150 changes the position by 20, and a move by -10
  from 50 above the top changes it by -4. Over the drag in fractions of a pixel the
  position is the rounded running sum of the three displacements.
\<close>

theorem pointermove_damping_witness:
  "state flicked = Drag
   \<and> pos (pointermove flicked 150 20) - pos flicked = 20
   \<and> state dragged_above = Drag
   \<and> pos dragged_above < minBound dragged_above
   \<and> pos (pointermove dragged_above 40 20) - pos dragged_above = - 4
   \<and> state fine_drag = Drag
   \<and> movesWithinBounds_fl fine_drag fine_moves
   \<and> pos (moves_fl fine_drag fine_moves)
       = sum_fl (pos fine_drag) (displacements_fl (lastY fine_drag) (map fst fine_moves))"
proof -
  have f: "state flicked = Drag" "minBound flicked \<le> pos flicked \<and> pos flicked \<le> maxBound flicked"
    "lastY flicked = 130"
    by (simp_all add: flicked_eq)
  have a: "state dragged_above = Drag" "pos dragged_above < minBound dragged_above"
    "lastY dragged_above = 50"
    by (simp_all add: dragged_above_eq)
  have "pos (pointermove flicked 150 20) - pos flicked = (150 - lastY flicked) * 1.0"
    using pointermove_damping [OF f(1), of 150 20 "[]"] f(2) by blast
  then have p: "pos (pointermove flicked 150 20) - pos flicked = 20"
    by (simp add: f)
  have "pos (pointermove dragged_above 40 20) - pos dragged_above
      = (40 - lastY dragged_above) * 0.4"
    using pointermove_damping [OF a(1), of 40 20 "[]"] a(2) by blast
  then have q: "pos (pointermove dragged_above 40 20) - pos dragged_above = - 4"
    by (simp add: a)
  have r: "pos (moves_fl fine_drag fine_moves)
      = sum_fl (pos fine_drag) (displacements_fl (lastY fine_drag) (map fst fine_moves))"
    using pointermove_damping [OF fine_drag_fields(1), of 0 0 fine_moves] fine_moves_run(2)
    by blast
  show ?thesis
    using f(1) p a(1,2) q fine_drag_fields(1) fine_moves_run(2) r by blast
qed

text \<open>
  The drag in fractions of a pixel: its three moves each start within the bounds, and the
  pointer ends where it went down. The position ends at \<open>- 2 ^ - 53\<close>, which is neither
  the exact sum of the displacements of the pointer (0) nor the exact sum of the three
  displacements the listener computed. It is below \<open>minBound\<close>, so that a further move
  by 10 is damped: the position ends at 4.
\<close>

theorem drag_sum_not_exact:
  "state fine_drag = Drag
   \<and> movesWithinBounds_fl fine_drag fine_moves
   \<and> pos (moves_fl fine_drag fine_moves) = - (1 / 9007199254740992)
   \<and> pos fine_drag + sum_list (displacements (lastY fine_drag) (map fst fine_moves)) = 0
   \<and> pos fine_drag + sum_list (displacements_fl (lastY fine_drag) (map fst fine_moves))
       = - (3 / 36028797018963968)
   \<and> pos (moves_fl fine_drag fine_moves) < minBound (moves_fl fine_drag fine_moves)
   \<and> fl (fl 10.1 - lastY (moves_fl fine_drag fine_moves)) = 10
   \<and> pos (pointermove_fl (moves_fl fine_drag fine_moves) (fl 10.1) 40) = 4"
proof -
  note run = fine_moves_run(1)
  have 1: "pos (moves_fl fine_drag fine_moves) = - (1 / 9007199254740992)"
    unfolding run by (rule after3_fields(5))
  have 2: "pos fine_drag + sum_list (displacements (lastY fine_drag) (map fst fine_moves)) = 0"
    by (simp add: fine_drag_fields(2) fine_moves_sums(1))
  have 3: "pos fine_drag + sum_list (displacements_fl (lastY fine_drag) (map fst fine_moves))
      = - (3 / 36028797018963968)"
    by (simp add: fine_drag_fields(2) fine_moves_sums(2))
  have 4: "pos (moves_fl fine_drag fine_moves) < minBound (moves_fl fine_drag fine_moves)"
    unfolding run by (simp add: after3_fields)
  have 5: "fl (fl 10.1 - lastY (moves_fl fine_drag fine_moves)) = 10"
    unfolding run after3_fields(4) by (rule fl_steps(5))
  have 6: "pos (pointermove_fl (moves_fl fine_drag fine_moves) (fl 10.1) 40) = 4"
    unfolding run by (rule after4_pos)
  show ?thesis
    using fine_drag_fields(1) fine_moves_run(2) 1 2 3 4 5 6 by blast
qed

section \<open>Reachable controllers\<close>

lemma coasting_fast_eq:
  "coasting_fast = \<lparr>vh = 500, ch = 1500, minBound = 0, maxBound = 1000, pos = 190 / 3,
     vel = 1900, springTarget = 0, state = Decel, pointerId = None, lastY = 130,
     lastMoveTime = 10, moveHistory = [\<lparr>dy = 30, dt = 10\<rparr>]\<rparr>"
  by (simp add: coasting_fast_def run_def flicked_eq pointerup_def estimateVelocity_def
      animate_def STOP_VEL_def MAX_VEL_def FRICTION_def)

lemma pointerup_fields:
  "minBound (pointerup s) = minBound s"
  "maxBound (pointerup s) = maxBound s"
  "pos (pointerup s) = pos s"
  "state (pointerup s) =
     (if pos s < minBound s \<or> pos s > maxBound s then Spring
      else if \<bar>estimateVelocity s\<bar> > 5 then Decel else Idle)"
  "springTarget (pointerup s) =
     (if pos s < minBound s then minBound s
      else if pos s > maxBound s then maxBound s else springTarget s)"
  by (simp_all add: pointerup_def Let_def estimateVelocity_def STOP_VEL_def)

lemma invariant_constructor: "invariant (constructor v c)"
  by (simp add: invariant_def constructor_def animate_def)

lemma invariant_pointerdown: "invariant s \<Longrightarrow> invariant (pointerdown s pid y t)"
  by (auto simp: invariant_def pointerdown_def)

lemma invariant_pointermove: "invariant s \<Longrightarrow> invariant (pointermove s y t)"
proof (cases "state s = Drag")
  case True
  assume "invariant s"
  then show ?thesis using True
    by (auto simp: invariant_def pointermove_Drag [OF True])
next
  case False
  assume "invariant s"
  then show ?thesis using False by (simp add: pointermove_other)
qed

lemma invariant_pointerup: "invariant s \<Longrightarrow> invariant (pointerup s)"
  by (auto simp: invariant_def pointerup_fields)

lemma invariant_animate: "invariant s \<Longrightarrow> invariant (animate s)"
proof (cases "state s")
  case Drag
  assume "invariant s"
  then show ?thesis using Drag by (simp add: animate_Drag)
next
  case Decel
  assume "invariant s"
  then show ?thesis
    by (auto simp: invariant_def animate_Decel [OF Decel])
next
  case Spring
  assume "invariant s"
  then show ?thesis
    by (auto simp: invariant_def animate_Spring [OF Spring])
next
  case Idle
  assume "invariant s"
  then show ?thesis using Idle by (simp add: animate_Idle)
qed

lemma invariant_handle: "invariant s \<Longrightarrow> invariant (handle s e)"
  by (cases e)
    (simp_all add: invariant_pointerdown invariant_pointermove invariant_pointerup
      invariant_animate)

lemma reachable_invariant: "reachable s \<Longrightarrow> invariant s"
  by (induction rule: reachable.induct) (simp_all add: invariant_constructor invariant_handle)

lemma reachable_maxBound: "reachable s \<Longrightarrow> 0 \<le> maxBound s"
  using reachable_invariant [of s] by (simp add: invariant_def)

lemma reachable_run: "reachable s \<Longrightarrow> reachable (run s es)"
  unfolding run_def
  by (induction es arbitrary: s) (simp_all add: reachable.handled)

lemma reachable_examples:
  "reachable page" "reachable dragged_above" "reachable flicked" "reachable slow_drag"
  "reachable coasting_slow" "reachable idle_after_coast" "reachable coasting_fast"
  "reachable one_move" "reachable fitting_page"
proof -
  show p: "reachable page" unfolding page_def by (rule reachable.constructed)
  show "reachable dragged_above" unfolding dragged_above_def by (rule reachable_run [OF p])
  show f: "reachable flicked" unfolding flicked_def by (rule reachable_run [OF p])
  show s: "reachable slow_drag" unfolding slow_drag_def by (rule reachable_run [OF p])
  show c: "reachable coasting_slow" unfolding coasting_slow_def by (rule reachable.handled [OF s])
  show "reachable idle_after_coast" unfolding idle_after_coast_def
    by (rule reachable.handled [OF c])
  show "reachable coasting_fast" unfolding coasting_fast_def by (rule reachable_run [OF f])
  show "reachable one_move" unfolding one_move_def by (rule reachable_run [OF p])
  show "reachable fitting_page" unfolding fitting_page_def by (rule reachable.constructed)
qed

lemma reachable_empty_pages: "reachable empty_page" "reachable collapsed_page"
  unfolding empty_page_def collapsed_page_def by (rule reachable.constructed)+

text \<open>Only a pointer up takes a controller out of \<open>Drag\<close>.\<close>

lemma run_Drag:
  "state s = Drag \<Longrightarrow> PointerUp \<notin> set es \<Longrightarrow> state (run s es) = Drag"
proof (induction es arbitrary: s)
  case Nil
  then show ?case by (simp add: run_def)
next
  case (Cons e es)
  have "state (handle s e) = Drag"
    using Cons.prems
    by (cases e) (simp_all add: pointerdown_def pointermove_Drag(1) animate_Drag)
  then have "state (run (handle s e) es) = Drag"
    using Cons.prems(2) by (intro Cons.IH) simp_all
  then show ?case by (simp add: run_def)
qed

text \<open>
  A pointer up that arrives while the controller is idle or coasting never starts the
  spring: these states hold a position within the bounds.
\<close>

lemma pointerup_stray_never_springs:
  assumes "reachable s" and "state s = Idle \<or> state s = Decel"
  shows "state (pointerup s) \<noteq> Spring"
  using reachable_invariant [OF assms(1)] assms(2)
  by (auto simp: invariant_def pointerup_fields(4))

section \<open>Idle controllers rest within the bounds\<close>

text \<open>
  Claim C6. In every controller that the constructor and the events can produce, the
  state \<open>Idle\<close> comes with a position within \<open>[minBound, maxBound]\<close>, and a tick in
  \<open>Idle\<close> does not move the position. Each way into \<open>Idle\<close> establishes it: a release
  that ends \<open>Idle\<close>, a coasting tick that ends \<open>Idle\<close> (the bounds test having the last
  word), and the snap of the spring, which puts the position on \<open>springTarget\<close>.
\<close>

theorem Idle_within_bounds:
  assumes "reachable s"
  shows "(state s = Idle \<longrightarrow>
            minBound s \<le> pos s \<and> pos s \<le> maxBound s \<and> pos (animate s) = pos s)
    \<and> (state (pointerup s) = Idle \<longrightarrow>
            minBound s \<le> pos (pointerup s) \<and> pos (pointerup s) \<le> maxBound s)
    \<and> (state s = Decel \<and> state (animate s) = Idle \<longrightarrow>
            minBound s \<le> pos (animate s) \<and> pos (animate s) \<le> maxBound s)
    \<and> (state s = Spring \<and> state (animate s) = Idle \<longrightarrow>
            pos (animate s) = springTarget s
            \<and> minBound s \<le> pos (animate s) \<and> pos (animate s) \<le> maxBound s)"
proof -
  have i: "invariant s" using assms by (rule reachable_invariant)
  have u: "invariant (pointerup s)" using i by (rule invariant_pointerup)
  have a: "invariant (animate s)" using i by (rule invariant_animate)
  have 1: "state s = Idle \<longrightarrow>
      minBound s \<le> pos s \<and> pos s \<le> maxBound s \<and> pos (animate s) = pos s"
    using i by (auto simp: invariant_def animate_Idle)
  have 2: "state (pointerup s) = Idle \<longrightarrow>
      minBound s \<le> pos (pointerup s) \<and> pos (pointerup s) \<le> maxBound s"
    using u by (auto simp: invariant_def pointerup_fields(1,2))
  have 3: "state s = Decel \<and> state (animate s) = Idle \<longrightarrow>
      minBound s \<le> pos (animate s) \<and> pos (animate s) \<le> maxBound s"
    using a by (auto simp: invariant_def animate_Decel(3,4))
  have 4: "state s = Spring \<and> state (animate s) = Idle \<longrightarrow>
      pos (animate s) = springTarget s
      \<and> minBound s \<le> pos (animate s) \<and> pos (animate s) \<le> maxBound s"
    using a by (auto simp: invariant_def animate_Spring(3,4,5,6) split: if_splits)
  show ?thesis using 1 2 3 4 by blast
qed

text \<open>The controller that stopped after the slow coast rests at 3913/150.\<close>

theorem Idle_within_bounds_witness:
  "reachable idle_after_coast \<and> state idle_after_coast = Idle
   \<and> pos idle_after_coast = 3913 / 150
   \<and> minBound idle_after_coast \<le> pos idle_after_coast
   \<and> pos idle_after_coast \<le> maxBound idle_after_coast
   \<and> pos (animate idle_after_coast) = pos idle_after_coast"
proof -
  have c: "state idle_after_coast = Idle" "pos idle_after_coast = 3913 / 150"
    by (simp_all add: idle_after_coast_eq)
  show ?thesis
    using Idle_within_bounds [OF reachable_examples(6)] reachable_examples(6) c by blast
qed

section \<open>The velocity outside coasting and springing\<close>

text \<open>
  Claim C8, amended. In every controller that the constructor and the events can
  produce, the velocity is 0 whenever the state is \<open>Drag\<close>. In \<open>Idle\<close> the velocity is
  not reset: a tick in \<open>Idle\<close> leaves it as the last coasting or springing tick left it,
  and that value can differ from 0.
\<close>

theorem Drag_velocity_zero:
  assumes "reachable s"
  shows "(state s = Drag \<longrightarrow> vel s = 0)
    \<and> (state s = Idle \<longrightarrow> vel (animate s) = vel s)"
  using reachable_invariant [OF assms] by (simp add: invariant_def animate_Idle)

theorem Drag_velocity_zero_witness:
  "reachable flicked \<and> state flicked = Drag \<and> vel flicked = 0"
proof -
  have c: "state flicked = Drag"
    by (simp add: flicked_eq)
  show ?thesis
    using Drag_velocity_zero [OF reachable_examples(3)] reachable_examples(3) c by blast
qed

text \<open>
  The coast that started at 5.2 stops at 4.94: the controller is \<open>Idle\<close> with that
  velocity.
\<close>

theorem Idle_velocity_nonzero:
  "reachable idle_after_coast \<and> state idle_after_coast = Idle
   \<and> vel idle_after_coast = 4.94 \<and> vel idle_after_coast \<noteq> 0"
  by (simp add: reachable_examples(6)) (simp add: idle_after_coast_eq)

section \<open>Cancellation of a pointer session\<close>

text \<open>
  Claim C7, amended. The controller has no handler for the cancellation of a pointer
  session: a cancel event changes no field of the controller. A controller that is
  dragging when its session is cancelled stays in \<open>Drag\<close> through every later frame,
  move, cancel and pointer down, until a pointer up arrives.
\<close>

theorem pointercancel_ignored:
  "handle s PointerCancel = s
   \<and> (state s = Drag \<and> PointerUp \<notin> set es \<longrightarrow> state (run s (PointerCancel # es)) = Drag)"
proof -
  have "state s = Drag \<and> PointerUp \<notin> set es \<longrightarrow> state (run s (PointerCancel # es)) = Drag"
    using run_Drag [of s "PointerCancel # es"] by simp
  then show ?thesis by simp
qed

theorem pointercancel_ignored_witness:
  "state dragged_above = Drag
   \<and> handle dragged_above PointerCancel = dragged_above
   \<and> state (run dragged_above
        [PointerCancel, Frame, PointerMove 40 20, Frame, PointerCancel, Frame]) = Drag"
proof -
  have d: "state dragged_above = Drag"
    by (simp add: dragged_above_eq)
  have n: "PointerUp \<notin> set [Frame, PointerMove 40 20, Frame, PointerCancel, Frame]"
    by simp
  show ?thesis
    using pointercancel_ignored
      [of dragged_above "[Frame, PointerMove 40 20, Frame, PointerCancel, Frame]"] d n
    by blast
qed

text \<open>
  The fast drag, cancelled instead of released: the release would start the coast, the
  cancellation leaves the controller dragging, frame after frame.
\<close>

theorem pointercancel_not_pointerup:
  "handle flicked PointerCancel \<noteq> handle flicked PointerUp
   \<and> state (handle flicked PointerUp) = Decel
   \<and> state (handle flicked PointerCancel) = Drag
   \<and> state (run flicked [PointerCancel, Frame, Frame, Frame]) = Drag"
proof -
  have d: "state flicked = Drag"
    by (simp add: flicked_eq)
  have u: "state (handle flicked PointerUp) = Decel"
    by (simp add: flicked_eq pointerup_def estimateVelocity_def STOP_VEL_def MAX_VEL_def)
  have ne: "handle flicked PointerCancel \<noteq> handle flicked PointerUp"
  proof
    assume "handle flicked PointerCancel = handle flicked PointerUp"
    then have "state (handle flicked PointerCancel) = state (handle flicked PointerUp)"
      by (rule arg_cong)
    then show False using u d by simp
  qed
  have r: "state (run flicked [PointerCancel, Frame, Frame, Frame]) = Drag"
    using d by (simp add: run_def animate_Drag)
  show ?thesis using ne u d r by simp
qed

section \<open>The thumb\<close>

text \<open>
  What \<open>updateThumb\<close> does guard: with \<open>maxBound\<close> equal to 0 the ratio is 0, and with
  a positive \<open>maxBound\<close> it is \<open>position / maxBound\<close>. (\<open>maxBound\<close> is never negative:
  the constructor takes the maximum with 0.) With a content height other than 0 the
  height of the thumb is the larger of \<open>vh * (vh / ch)\<close> and 20.
\<close>

lemma updateThumb_guarded:
  assumes "0 \<le> maxBound s"
  shows "scrollRatio s = Some (if maxBound s = 0 then 0 else pos s / maxBound s)"
    and "ch s \<noteq> 0 \<Longrightarrow> thumbHeight s = Some (max (vh s * (vh s / ch s)) 20)"
    and "thumbHeight s = Some h \<Longrightarrow> 20 \<le> h"
  using assms by (auto simp: scrollRatio_def thumbHeight_def js_div_def split: if_splits)

lemma empty_page_eq:
  "empty_page = \<lparr>vh = 500, ch = 0, minBound = 0, maxBound = 0, pos = 0, vel = 0,
     springTarget = 0, state = Idle, pointerId = None, lastY = 0, lastMoveTime = 0,
     moveHistory = []\<rparr>"
  by (simp add: empty_page_def constructor_def animate_def)

lemma collapsed_page_eq:
  "collapsed_page = \<lparr>vh = 0, ch = 0, minBound = 0, maxBound = 0, pos = 0, vel = 0,
     springTarget = 0, state = Idle, pointerId = None, lastY = 0, lastMoveTime = 0,
     moveHistory = []\<rparr>"
  by (simp add: collapsed_page_def constructor_def animate_def)

text \<open>
  Claim C9. The claim has \<open>updateThumb\<close> guard its division by zero and the height of
  the thumb never below 20. The division by \<open>maxBound\<close> is guarded; the division
  \<open>vh / ch\<close> before it is not. On a content of height 0, where \<open>maxBound\<close> is 0 and
  \<open>scrollRatio\<close> is 0, the divisor \<open>ch\<close> is 0: the height that \<open>updateThumb\<close> writes
  is not a finite number, and neither is the \<open>translateY\<close> it writes.
\<close>

theorem updateThumb_empty_content:
  "ch empty_page = 0 \<and> maxBound empty_page = 0
   \<and> scrollRatio empty_page = Some 0
   \<and> js_div (vh empty_page) (ch empty_page) = None
   \<and> thumbHeight empty_page = None
   \<and> updateThumb empty_page = (None, None)
   \<and> ch collapsed_page = 0 \<and> maxBound collapsed_page = 0
   \<and> scrollRatio collapsed_page = Some 0
   \<and> js_div (vh collapsed_page) (ch collapsed_page) = None
   \<and> thumbHeight collapsed_page = None
   \<and> updateThumb collapsed_page = (None, None)"
  by (simp add: empty_page_eq collapsed_page_eq updateThumb_def thumbHeight_def
      scrollRatio_def js_div_def)

section \<open>A pointer up without a drag\<close>

text \<open>
  Claim C10, amended. The pointer-up handler does not look at the current state:
  whatever the state is, it takes the release decision as it would for a dragging
  controller, on the move history that the last drag left. So a pointer up that no drag
  precedes can take an idle controller into \<open>Decel\<close>, and can start the coast of a
  coasting controller anew at the velocity of the old release. It never takes an idle or
  coasting controller into \<open>Spring\<close>: in these states the position is within the bounds.
\<close>

theorem pointerup_unguarded:
  "pointerup (s\<lparr>state := st\<rparr>) = pointerup s
   \<and> (\<exists>i. reachable i \<and> state i = Idle \<and> state (pointerup i) = Decel)
   \<and> (\<exists>c. reachable c \<and> state c = Decel \<and> state (pointerup c) = Decel
           \<and> vel (pointerup c) \<noteq> vel c)
   \<and> (reachable s \<and> (state s = Idle \<or> state s = Decel) \<longrightarrow> state (pointerup s) \<noteq> Spring)"
proof -
  have 1: "pointerup (s\<lparr>state := st\<rparr>) = pointerup s"
    by (simp add: pointerup_def Let_def estimateVelocity_def)
  have "reachable idle_after_coast \<and> state idle_after_coast = Idle
      \<and> state (pointerup idle_after_coast) = Decel"
    by (simp add: reachable_examples(6))
      (simp add: idle_after_coast_eq pointerup_def estimateVelocity_def STOP_VEL_def)
  then have 2: "\<exists>i. reachable i \<and> state i = Idle \<and> state (pointerup i) = Decel"
    by blast
  have "reachable coasting_fast \<and> state coasting_fast = Decel
      \<and> state (pointerup coasting_fast) = Decel
      \<and> vel (pointerup coasting_fast) \<noteq> vel coasting_fast"
    by (simp add: reachable_examples(7))
      (simp add: coasting_fast_eq pointerup_def estimateVelocity_def STOP_VEL_def MAX_VEL_def)
  then have 3: "\<exists>c. reachable c \<and> state c = Decel \<and> state (pointerup c) = Decel
      \<and> vel (pointerup c) \<noteq> vel c"
    by blast
  have 4: "reachable s \<and> (state s = Idle \<or> state s = Decel) \<longrightarrow> state (pointerup s) \<noteq> Spring"
    using pointerup_stray_never_springs [of s] by blast
  show ?thesis using 1 2 3 4 by blast
qed

text \<open>
  The controller that stopped after the slow coast: a pointer up decides as if it were
  dragging, and the history of that drag (5.2 per second) sends it coasting again, not
  springing.
\<close>

theorem pointerup_unguarded_witness:
  "reachable idle_after_coast
   \<and> state idle_after_coast = Idle
   \<and> pointerup (idle_after_coast\<lparr>state := Drag\<rparr>) = pointerup idle_after_coast
   \<and> state (pointerup idle_after_coast) = Decel
   \<and> vel (pointerup idle_after_coast) = 5.2
   \<and> state (pointerup idle_after_coast) \<noteq> Spring"
proof -
  have c: "state idle_after_coast = Idle"
    by (simp add: idle_after_coast_eq)
  have d: "state (pointerup idle_after_coast) = Decel" "vel (pointerup idle_after_coast) = 5.2"
    by (simp_all add: idle_after_coast_eq pointerup_def estimateVelocity_def STOP_VEL_def
        MAX_VEL_def)
  show ?thesis
    using pointerup_unguarded [where s = idle_after_coast and st = Drag]
      reachable_examples(6) c d by blast
qed

text \<open>
  No controller that the constructor and the events can produce is idle or coasting and
  springs after a pointer up; the idle controller after the slow coast and the fast
  coast do not.
\<close>

theorem no_Spring_from_stray_pointerup:
  "reachable idle_after_coast \<and> state idle_after_coast = Idle
   \<and> state (pointerup idle_after_coast) \<noteq> Spring
   \<and> reachable coasting_fast \<and> state coasting_fast = Decel
   \<and> state (pointerup coasting_fast) \<noteq> Spring
   \<and> \<not> (\<exists>s. reachable s \<and> (state s = Idle \<or> state s = Decel)
            \<and> state (pointerup s) = Spring)"
proof -
  have i: "state idle_after_coast = Idle"
    by (simp add: idle_after_coast_eq)
  have c: "state coasting_fast = Decel"
    by (simp add: coasting_fast_eq)
  have n: "\<not> (\<exists>s. reachable s \<and> (state s = Idle \<or> state s = Decel)
      \<and> state (pointerup s) = Spring)"
    using pointerup_stray_never_springs by blast
  show ?thesis
    using reachable_examples(6,7) i c n by blast
qed

end
